theory Spec2Isabelle
  imports Complex_Main "HOL-Library.Sublist"
begin

section \<open>Readings and the source buffer\<close>

text \<open>
  \<^verbatim>\<open>TransferBuffer.hpp\<close> uses four members of a reading: \<^verbatim>\<open>value()\<close>, \<^verbatim>\<open>time_ms()\<close>,
  \<^verbatim>\<open>deleted()\<close> and \<^verbatim>\<open>mark_delete()\<close>. A reading is a record of the three observable parts.

  The value is a \<^verbatim>\<open>double\<close>: a finite number, read as a real (the two zeros are the same
  number, as they compare equal), one of the two infinities, or NaN. The comparison
  \<^verbatim>\<open>!=\<close> of the code is \<open>value_ne\<close>: NaN differs from everything, itself included.
\<close>

datatype double = Finite real | PlusInfinity | MinusInfinity | NaN

definition value_ne :: "double \<Rightarrow> double \<Rightarrow> bool" where
  "value_ne x y \<longleftrightarrow> x = NaN \<or> y = NaN \<or> x \<noteq> y"

text \<open>
  \<^verbatim>\<open>time_ms()\<close> is an \<^verbatim>\<open>int64_t\<close> count of milliseconds. The code takes the difference of
  two timestamps in \<^verbatim>\<open>int64_t\<close> (line 141); \<open>dt64\<close> is that difference, wrapping around
  where the exact one does not fit 64 bits, as the compiled code does.
\<close>

record Reading =
  val :: double
  time_ms :: int
  deleted :: bool

definition dt64 :: "int \<Rightarrow> int \<Rightarrow> int" where
  "dt64 t p = (t - p + 2 ^ 63) mod 2 ^ 64 - 2 ^ 63"

definition mark_delete :: "Reading \<Rightarrow> Reading" where
  "mark_delete r = r\<lparr>deleted := True\<rparr>"

text \<open>
  The source \<^verbatim>\<open>Buffer\<close> is iterated front to back under a lock held for the whole call;
  it is a list of readings, and \<^verbatim>\<open>append\<close> returns the list with its new delete flags.
\<close>

type_synonym Buffer = "Reading list"

section \<open>Machine sizes\<close>

text \<open>
  \<^verbatim>\<open>size_type\<close> is an unsigned 64-bit integer and the difference of two iterators is a
  signed one. Sizes are natural numbers; the conversion between the two kinds wraps
  around, and is written out wherever the code converts.
\<close>

definition size_max :: nat where
  "size_max = 2 ^ 64 - 1"

definition to_size :: "int \<Rightarrow> nat" where
  "to_size i = nat (i mod 2 ^ 64)"

definition to_diff :: "nat \<Rightarrow> int" where
  "to_diff n = (if n mod 2 ^ 64 < 2 ^ 63 then int (n mod 2 ^ 64) else int (n mod 2 ^ 64) - 2 ^ 64)"

section \<open>The backing vector\<close>

text \<open>
  A \<^verbatim>\<open>std::vector\<close> is its element list together with its reserved capacity. The capacity
  after a reallocation follows GNU libstdc++: \<^verbatim>\<open>reserve(n)\<close> and \<^verbatim>\<open>assign\<close> allocate
  exactly what is asked for when the present capacity is too small, and \<^verbatim>\<open>push_back\<close> on a
  full vector doubles it. Allocation limits (\<^verbatim>\<open>max_size()\<close>, exhausted memory) are outside
  the model.
\<close>

definition vec_reserve :: "nat \<Rightarrow> nat \<Rightarrow> nat" where
  "vec_reserve n c = (if c < n then n else c)"

definition vec_assign :: "nat \<Rightarrow> nat \<Rightarrow> nat" where
  "vec_assign len c = (if c < len then len else c)"

definition vec_grow :: "nat \<Rightarrow> nat" where
  "vec_grow len = len + max len 1"

section \<open>The transfer buffer\<close>

record TransferBuffer =
  impl :: "Reading list"
  impl_capacity :: nat
  history_size :: nat
  target_capacity :: nat

definition default_target_capacity :: nat where
  "default_target_capacity = 4096"

definition TransferBuffer_new :: "nat \<Rightarrow> TransferBuffer" where
  "TransferBuffer_new nmax =
     \<lparr>impl = [], impl_capacity = vec_reserve nmax 0, history_size = 0, target_capacity = nmax\<rparr>"

text \<open>
  Iterators are offsets from \<^verbatim>\<open>_impl.begin()\<close>. \<^verbatim>\<open>begin()\<close> adds the history size without
  looking at the vector's size, so the offset may lie behind \<^verbatim>\<open>end()\<close>.
\<close>

definition begin_tb :: "TransferBuffer \<Rightarrow> int" where
  "begin_tb b = int (history_size b)"

definition end_tb :: "TransferBuffer \<Rightarrow> int" where
  "end_tb b = int (length (impl b))"

definition empty_tb :: "TransferBuffer \<Rightarrow> bool" where
  "empty_tb b \<longleftrightarrow> begin_tb b = end_tb b"

definition size_tb :: "TransferBuffer \<Rightarrow> nat" where
  "size_tb b = to_size (end_tb b - begin_tb b)"

definition reserve :: "nat \<Rightarrow> TransferBuffer \<Rightarrow> TransferBuffer" where
  "reserve n b =
     b\<lparr>impl_capacity := vec_reserve (to_size (int n + int (history_size b))) (impl_capacity b)\<rparr>"

definition capacity :: "TransferBuffer \<Rightarrow> nat" where
  "capacity b = to_size (int (impl_capacity b) - int (history_size b))"

text \<open>The live region, \<^verbatim>\<open>begin()\<close> to \<^verbatim>\<open>end()\<close>, and the history before it.\<close>

definition live :: "TransferBuffer \<Rightarrow> Reading list" where
  "live b = drop (history_size b) (impl b)"

definition history :: "TransferBuffer \<Rightarrow> Reading list" where
  "history b = take (history_size b) (impl b)"

text \<open>\<^verbatim>\<open>clear()\<close> empties the vector and leaves its capacity and every other member alone.\<close>

definition clear :: "TransferBuffer \<Rightarrow> TransferBuffer" where
  "clear b = b\<lparr>impl := []\<rparr>"

definition shrink_to_target_capacity :: "TransferBuffer \<Rightarrow> TransferBuffer" where
  "shrink_to_target_capacity b =
     (if capacity b \<le> target_capacity b then b
      else b\<lparr>impl_capacity := vec_assign (length (impl b)) (vec_reserve (target_capacity b) 0)\<rparr>)"

text \<open>
  \<^verbatim>\<open>discard(n, keep)\<close>; the defaults are \<^verbatim>\<open>n = size_max\<close> and \<^verbatim>\<open>keep = 1\<close>. \<^verbatim>\<open>erase\<close> of
  the first \<open>k\<close> elements is \<^const>\<open>drop\<close>. The range handed to \<^verbatim>\<open>erase\<close> must lie in the
  vector: where the history size exceeds the vector's size (see \<^verbatim>\<open>clear()\<close>) its end can
  lie behind \<^verbatim>\<open>_impl.end()\<close>, the behaviour of the C++ code is undefined, and the result
  is \<^const>\<open>None\<close>.
\<close>

definition discard :: "nat \<Rightarrow> nat \<Rightarrow> TransferBuffer \<Rightarrow> (nat \<times> TransferBuffer) option" where
  "discard n keep b =
     (let last_it = begin_tb b + to_diff (min n (size_tb b));
          ndel = to_size (last_it - begin_tb b);
          b1 = b\<lparr>history_size := min keep (length (impl b))\<rparr>;
          erase_end = last_it - to_diff (history_size b1)
      in if erase_end > 0 \<and> erase_end > end_tb b1 then None
         else
           (let b2 = (if erase_end > 0 then b1\<lparr>impl := drop (nat erase_end) (impl b1)\<rparr> else b1);
                b3 = (if capacity b2 > (4 * target_capacity b2) mod 2 ^ 64
                      then shrink_to_target_capacity b2 else b2)
            in Some (ndel, b3)))"

definition push_back :: "Reading \<Rightarrow> TransferBuffer \<Rightarrow> TransferBuffer" where
  "push_back r b =
     b\<lparr>impl := impl b @ [r],
       impl_capacity := (if length (impl b) = impl_capacity b then vec_grow (length (impl b))
                         else impl_capacity b)\<rparr>"

text \<open>
  The body of the main loop of \<^verbatim>\<open>append\<close> for a reading that is not deleted (lines 139
  to 149). The loop is entered with a non-empty vector only, so \<^verbatim>\<open>--_impl.end()\<close> is its
  last element. The debug message has no effect on the result and is left out, and with
  it the channel name.
\<close>

definition append_step :: "int \<Rightarrow> TransferBuffer \<Rightarrow> Reading \<Rightarrow> TransferBuffer" where
  "append_step m b r =
     (let prev = last (impl b);
          t = time_ms r;
          dt = dt64 t (time_ms prev)
      in if dt > 0 \<and> (dt \<ge> m \<or> value_ne (val r) (val prev)) then push_back r b else b)"

text \<open>The main loop (lines 136 to 152) over the rest of the source, marking what it passes.\<close>

fun append_loop :: "int \<Rightarrow> TransferBuffer \<Rightarrow> Buffer \<Rightarrow> TransferBuffer \<times> Buffer" where
  "append_loop m b [] = (b, [])"
| "append_loop m b (r # rs) =
     (if deleted r then (let (b', rs') = append_loop m b rs in (b', r # rs'))
      else (let (b', rs') = append_loop m (append_step m b r) rs in (b', mark_delete r # rs')))"

text \<open>
  \<^verbatim>\<open>append(src, channel, min_ms_between_duplicates)\<close> returns the count, the buffer and the
  source. \<^verbatim>\<open>old_end\<close> is an iterator taken before the first \<^verbatim>\<open>push_back\<close>: a reallocation
  invalidates it, and then \<^verbatim>\<open>end() - old_end\<close> has no defined value, which is the
  count \<^const>\<open>None\<close>.
\<close>

definition append_tb ::
  "TransferBuffer \<Rightarrow> Buffer \<Rightarrow> int \<Rightarrow> nat option \<times> TransferBuffer \<times> Buffer" where
  "append_tb b src m =
     (let skipped = takeWhile deleted src;
          rest = dropWhile deleted src
      in if rest = [] then (Some 0, b, src)
         else
           (let old_end = end_tb b;
                (b1, marked, rest1) =
                   (if impl b = [] then (push_back (hd rest) b, [mark_delete (hd rest)], tl rest)
                    else (b, [], rest));
                (b2, rest2) = append_loop m b1 rest1
            in ((if impl_capacity b2 = impl_capacity b then Some (to_size (end_tb b2 - old_end))
                 else None),
                b2, skipped @ marked @ rest2)))"

definition append_count :: "TransferBuffer \<Rightarrow> Buffer \<Rightarrow> int \<Rightarrow> nat option" where
  "append_count b src m = fst (append_tb b src m)"

definition append_buf :: "TransferBuffer \<Rightarrow> Buffer \<Rightarrow> int \<Rightarrow> TransferBuffer" where
  "append_buf b src m = fst (snd (append_tb b src m))"

definition append_src :: "TransferBuffer \<Rightarrow> Buffer \<Rightarrow> int \<Rightarrow> Buffer" where
  "append_src b src m = snd (snd (append_tb b src m))"

section \<open>Sequences of operations\<close>

text \<open>
  The operations that change a transfer buffer. An \<open>Append\<close> carries the contents of the
  source at the moment of the call and the minimal distance between duplicates.
\<close>

datatype op =
    Append Buffer int
  | Discard nat nat
  | Clear
  | Shrink
  | Reserve nat

text \<open>A sequence of operations runs as long as each of them has a defined result.\<close>

fun apply_op :: "op \<Rightarrow> TransferBuffer \<Rightarrow> TransferBuffer option" where
  "apply_op (Append src m) b = Some (append_buf b src m)"
| "apply_op (Discard n keep) b = map_option snd (discard n keep b)"
| "apply_op Clear b = Some (clear b)"
| "apply_op Shrink b = Some (shrink_to_target_capacity b)"
| "apply_op (Reserve n) b = Some (reserve n b)"

fun run :: "TransferBuffer \<Rightarrow> op list \<Rightarrow> TransferBuffer option" where
  "run b [] = Some b"
| "run b (x # xs) = (case apply_op x b of None \<Rightarrow> None | Some b' \<Rightarrow> run b' xs)"

section \<open>Properties of a buffer\<close>

text \<open>Strictly increasing timestamps along a sequence of readings.\<close>

definition increasing_times :: "Reading list \<Rightarrow> bool" where
  "increasing_times xs \<longleftrightarrow> sorted_wrt (<) (map time_ms xs)"

text \<open>
  Timestamps whose differences fit 64 bits: those between \<open>-2^62\<close> and \<open>2^62\<close>
  milliseconds, some 146 million years to either side of the epoch.
\<close>

definition time_in_range :: "Reading \<Rightarrow> bool" where
  "time_in_range r \<longleftrightarrow> - (2 ^ 62) \<le> time_ms r \<and> time_ms r < 2 ^ 62"

fun op_in_range :: "op \<Rightarrow> bool" where
  "op_in_range (Append src m) = list_all time_in_range src"
| "op_in_range (Discard n keep) = True"
| "op_in_range Clear = True"
| "op_in_range Shrink = True"
| "op_in_range (Reserve n) = True"

text \<open>
  The invariants of the data model: the history is part of the stored sequence, the
  stored sequence fits the reserved storage, and the reserved storage is one a vector
  can have (its size fits a signed 64-bit difference).
\<close>

definition well_formed :: "TransferBuffer \<Rightarrow> bool" where
  "well_formed b \<longleftrightarrow>
     history_size b \<le> length (impl b) \<and> length (impl b) \<le> impl_capacity b \<and>
     impl_capacity b < 2 ^ 63"

section \<open>The acceptance rule in the words of the specification\<close>

text \<open>
  The decision on one not-deleted reading \<open>r\<close>, given the stored sequence at the moment
  \<open>r\<close> is examined: an empty buffer accepts \<open>r\<close>; otherwise, with \<open>prev\<close> the last stored
  element and \<open>dt = r.time_ms - prev.time_ms\<close>, a difference of two \<^verbatim>\<open>int64_t\<close> values, \<open>r\<close>
  is accepted if and only if \<open>dt > 0\<close> and (\<open>dt >= min_ms_between_duplicates\<close> or
  \<open>r.value != prev.value\<close>).
\<close>

definition spec_accept :: "int \<Rightarrow> Reading list \<Rightarrow> Reading \<Rightarrow> Reading list" where
  "spec_accept m stored r =
     (if stored = [] then stored @ [r]
      else
        (let prev = last stored; dt = dt64 (time_ms r) (time_ms prev)
         in if dt > 0 \<and> (dt \<ge> m \<or> value_ne (val r) (val prev)) then stored @ [r] else stored))"

section \<open>Concrete inputs\<close>

text \<open>A fresh reading, not deleted, with its timestamp in milliseconds.\<close>

definition new_reading :: "real \<Rightarrow> int \<Rightarrow> Reading" where
  "new_reading v t = \<lparr>val = Finite v, time_ms = t, deleted = False\<rparr>"

text \<open>The eight readings with the millisecond timestamps 1000, 2000, 3000, 3200, 3499, 3500, 3990, 4000.\<close>

definition ms_source :: Buffer where
  "ms_source =
     [new_reading 1 1000, new_reading 2 2000, new_reading 2.1 3000, new_reading 2.1 3200,
      new_reading 2.1 3499, new_reading 2.1 3500, new_reading 2.1 3990, new_reading 2.1 4000]"

text \<open>
  The readings of the unit test \<^verbatim>\<open>filter_by_time\<close>. The test gives each time as seconds
  and microseconds: 1 s, 2 s, 3 s, then 3 s plus 200, 499, 500, 990 and 1000 microseconds.
  The tests' own assertions fix \<^verbatim>\<open>time_ms()\<close> as whole milliseconds (1000 for 1 s, 3001
  for 3 s plus 1000 microseconds), so the last five readings lie at 3000, 3000, 3000, 3000
  and 3001 ms.
\<close>

definition test_source :: Buffer where
  "test_source =
     [new_reading 1 1000, new_reading 2 2000, new_reading 2.1 3000, new_reading 2.1 3000,
      new_reading 2.1 3000, new_reading 2.1 3000, new_reading 2.1 3000, new_reading 2.1 3001]"

text \<open>A buffer of two live readings and no history, with room to spare.\<close>

definition two_live :: TransferBuffer where
  "two_live =
     \<lparr>impl = [new_reading 1 1000, new_reading 2 2000], impl_capacity = 4096,
      history_size = 0, target_capacity = 4096\<rparr>"

text \<open>A buffer of five stored readings, one of them history, in storage reserved for eight, with target capacity 2.\<close>

definition five_stored :: TransferBuffer where
  "five_stored =
     \<lparr>impl = [new_reading 1 1000, new_reading 2 2000, new_reading 2.1 3000,
              new_reading 2.1 3200, new_reading 2.1 3499],
      impl_capacity = 8, history_size = 1, target_capacity = 2\<rparr>"

text \<open>
  The buffer reached from a fresh one of target capacity 1 by one \<^verbatim>\<open>append\<close> of the eight
  readings above: all eight are live, in storage that has doubled up to eight.
\<close>

definition grown_buffer :: TransferBuffer where
  "grown_buffer = \<lparr>impl = ms_source, impl_capacity = 8, history_size = 0, target_capacity = 1\<rparr>"

text \<open>
  Two readings of the same value, the second 18 * 10^18 ms before the first: both
  timestamps are \<^verbatim>\<open>int64_t\<close> values, their difference is not.
\<close>

definition far_source :: Buffer where
  "far_source = [new_reading 1 9000000000000000000, new_reading 1 (- 9000000000000000000)]"

text \<open>
  A buffer left behind by \<^verbatim>\<open>clear()\<close>: one stored reading and a history size of 2. It is
  reached from a fresh buffer by \<^verbatim>\<open>append\<close> of two readings, \<^verbatim>\<open>discard(size_max, 2)\<close>,
  \<^verbatim>\<open>clear()\<close> and \<^verbatim>\<open>append\<close> of one reading.
\<close>

definition stale_history :: TransferBuffer where
  "stale_history =
     \<lparr>impl = [new_reading 1 6000], impl_capacity = 4096, history_size = 2,
      target_capacity = 4096\<rparr>"

text \<open>A buffer whose only stored reading is history, as after \<^verbatim>\<open>append\<close> of one reading and \<^verbatim>\<open>discard()\<close>.\<close>

definition one_history :: TransferBuffer where
  "one_history =
     \<lparr>impl = [new_reading 1 1000], impl_capacity = 4096, history_size = 1,
      target_capacity = 4096\<rparr>"

text \<open>A buffer whose only stored reading, live, lies at 9 * 10^18 ms.\<close>

definition far_live :: TransferBuffer where
  "far_live =
     \<lparr>impl = [new_reading 1 9000000000000000000], impl_capacity = 4096, history_size = 0,
      target_capacity = 4096\<rparr>"

section \<open>Conversions between sizes and differences\<close>

lemma to_size_int: "n < 2 ^ 64 \<Longrightarrow> to_size (int n) = n"
  by (simp add: to_size_def)

lemma to_diff_int: "n < 2 ^ 63 \<Longrightarrow> to_diff n = int n"
  by (simp add: to_diff_def)

text \<open>Between timestamps in range the 64-bit difference is the exact one.\<close>

lemma dt64_exact:
  assumes "- (2 ^ 62) \<le> t" and "t < 2 ^ 62" and "- (2 ^ 62) \<le> p" and "p < 2 ^ 62"
  shows "dt64 t p = t - p"
proof -
  have "0 \<le> t - p + 2 ^ 63" and "t - p + 2 ^ 63 < 2 ^ 64"
    using assms by simp_all
  then have "(t - p + 2 ^ 63) mod 2 ^ 64 = t - p + 2 ^ 63"
    by (rule mod_pos_pos_trivial)
  then show ?thesis by (simp add: dt64_def)
qed

lemma dt64_in_range:
  "time_in_range r \<Longrightarrow> time_in_range p \<Longrightarrow> dt64 (time_ms r) (time_ms p) = time_ms r - time_ms p"
  by (simp add: time_in_range_def dt64_exact)

section \<open>The scan of the source\<close>

lemma mark_delete_deleted: "deleted r \<Longrightarrow> mark_delete r = r"
  by (simp add: mark_delete_def)

lemma impl_push_back: "impl (push_back r b) = impl b @ [r]"
  by (simp add: push_back_def)

lemma history_size_push_back: "history_size (push_back r b) = history_size b"
  by (simp add: push_back_def)

lemma target_capacity_push_back: "target_capacity (push_back r b) = target_capacity b"
  by (simp add: push_back_def)

lemma append_loop_src: "snd (append_loop m b src) = map mark_delete src"
  by (induction src arbitrary: b)
     (simp_all add: Let_def case_prod_beta mark_delete_deleted)

lemma append_loop_fold:
  "fst (append_loop m b src) = foldl (append_step m) b (filter (\<lambda>r. \<not> deleted r) src)"
  by (induction src arbitrary: b) (simp_all add: case_prod_beta)

lemma impl_append_step:
  "impl b \<noteq> [] \<Longrightarrow> impl (append_step m b r) = spec_accept m (impl b) r"
  by (simp add: append_step_def spec_accept_def impl_push_back Let_def)

lemma impl_foldl_append_step:
  "impl b \<noteq> [] \<Longrightarrow>
   impl (foldl (append_step m) b rs) = foldl (spec_accept m) (impl b) rs"
proof (induction rs arbitrary: b)
  case Nil
  then show ?case by simp
next
  case (Cons r rs)
  have "impl (append_step m b r) \<noteq> []"
    using Cons.prems by (simp add: append_step_def impl_push_back Let_def)
  from Cons.IH [OF this] Cons.prems show ?case by (simp add: impl_append_step)
qed

lemma append_loop_impl:
  "impl b \<noteq> [] \<Longrightarrow>
   impl (fst (append_loop m b src)) =
     foldl (spec_accept m) (impl b) (filter (\<lambda>r. \<not> deleted r) src)"
  by (simp add: append_loop_fold impl_foldl_append_step)

lemma history_size_append_step: "history_size (append_step m b r) = history_size b"
  by (simp add: append_step_def history_size_push_back Let_def)

lemma target_capacity_append_step: "target_capacity (append_step m b r) = target_capacity b"
  by (simp add: append_step_def target_capacity_push_back Let_def)

lemma append_loop_history_size: "history_size (fst (append_loop m b src)) = history_size b"
  by (induction src arbitrary: b)
     (simp_all add: case_prod_beta history_size_append_step)

lemma append_loop_target_capacity:
  "target_capacity (fst (append_loop m b src)) = target_capacity b"
  by (induction src arbitrary: b)
     (simp_all add: case_prod_beta target_capacity_append_step)

lemma filter_dropWhile_deleted:
  "filter (\<lambda>r. \<not> deleted r) (dropWhile deleted src) = filter (\<lambda>r. \<not> deleted r) src"
  by (induction src) simp_all

lemma map_mark_delete_takeWhile:
  "map mark_delete (takeWhile deleted src) = takeWhile deleted src"
  by (induction src) (simp_all add: mark_delete_deleted)

lemma append_src_eq: "append_src b src m = map mark_delete src"
proof (cases "dropWhile deleted src")
  case Nil
  then have "\<forall>r\<in>set src. deleted r" by simp
  then have "map mark_delete src = src"
    by (simp add: map_idI mark_delete_deleted)
  with Nil show ?thesis by (simp add: append_src_def append_tb_def)
next
  case (Cons r rest)
  have parts: "src = takeWhile deleted src @ r # rest"
    using Cons takeWhile_dropWhile_id [of deleted src] by simp
  have "append_src b src m = takeWhile deleted src @ mark_delete r # map mark_delete rest"
  proof (cases "impl b = []")
    case True
    then show ?thesis using Cons append_loop_src [of m "push_back r b" rest]
      by (simp add: append_src_def append_tb_def Let_def case_prod_beta)
  next
    case False
    then show ?thesis using Cons append_loop_src [of m b "r # rest"]
      by (simp add: append_src_def append_tb_def Let_def case_prod_beta)
  qed
  also have "\<dots> = map mark_delete (takeWhile deleted src @ r # rest)"
    by (simp add: map_mark_delete_takeWhile)
  finally show ?thesis using parts by simp
qed

lemma append_buf_impl:
  "impl (append_buf b src m) =
     foldl (spec_accept m) (impl b) (filter (\<lambda>r. \<not> deleted r) src)"
proof (cases "dropWhile deleted src")
  case Nil
  then have "filter (\<lambda>r. \<not> deleted r) src = []"
    by (simp add: filter_empty_conv)
  with Nil show ?thesis by (simp add: append_buf_def append_tb_def)
next
  case (Cons r rest)
  have nd: "\<not> deleted r"
    using Cons hd_dropWhile [of deleted src] by simp
  have flt: "filter (\<lambda>r. \<not> deleted r) src = r # filter (\<lambda>r. \<not> deleted r) rest"
    using filter_dropWhile_deleted [of src] Cons nd by simp
  show ?thesis
  proof (cases "impl b = []")
    case True
    have "impl (append_buf b src m) = impl (fst (append_loop m (push_back r b) rest))"
      using Cons True by (simp add: append_buf_def append_tb_def Let_def case_prod_beta)
    also have "\<dots> = foldl (spec_accept m) (impl (push_back r b)) (filter (\<lambda>r. \<not> deleted r) rest)"
      by (rule append_loop_impl) (simp add: impl_push_back)
    finally show ?thesis using True flt by (simp add: impl_push_back spec_accept_def)
  next
    case False
    have "impl (append_buf b src m) = impl (fst (append_loop m b (r # rest)))"
      using Cons False by (simp add: append_buf_def append_tb_def Let_def case_prod_beta)
    also have "\<dots> = foldl (spec_accept m) (impl b) (filter (\<lambda>r. \<not> deleted r) (r # rest))"
      by (rule append_loop_impl) (rule False)
    finally show ?thesis using flt nd by simp
  qed
qed

lemma append_buf_history_size: "history_size (append_buf b src m) = history_size b"
  by (simp add: append_buf_def append_tb_def Let_def case_prod_beta
      append_loop_history_size history_size_push_back)

lemma append_buf_target_capacity: "target_capacity (append_buf b src m) = target_capacity b"
  by (simp add: append_buf_def append_tb_def Let_def case_prod_beta
      append_loop_target_capacity target_capacity_push_back)

lemma append_all_deleted:
  "list_all deleted src \<Longrightarrow> append_tb b src m = (Some 0, b, src)"
  by (simp add: append_tb_def list_all_iff)

lemma list_all_deleted_mark: "list_all deleted (map mark_delete src)"
  by (simp add: list_all_iff mark_delete_def)

text \<open>The whole buffer after \<^verbatim>\<open>append\<close>, as a fold of the loop body over the not-deleted readings.\<close>

lemma append_buf_fold:
  "append_buf b src m =
     (case filter (\<lambda>r. \<not> deleted r) src of
        [] \<Rightarrow> b
      | r # rs \<Rightarrow> foldl (append_step m) (if impl b = [] then push_back r b else append_step m b r) rs)"
proof (cases "dropWhile deleted src")
  case Nil
  then have "filter (\<lambda>r. \<not> deleted r) src = []"
    by (simp add: filter_empty_conv)
  with Nil show ?thesis by (simp add: append_buf_def append_tb_def)
next
  case (Cons r rest)
  have nd: "\<not> deleted r"
    using Cons hd_dropWhile [of deleted src] by simp
  have flt: "filter (\<lambda>r. \<not> deleted r) src = r # filter (\<lambda>r. \<not> deleted r) rest"
    using filter_dropWhile_deleted [of src] Cons nd by simp
  show ?thesis
    using Cons nd flt
    by (simp add: append_buf_def append_tb_def Let_def case_prod_beta append_loop_fold)
qed

lemma append_count_eq:
  "append_count b src m =
     (if impl_capacity (append_buf b src m) = impl_capacity b
      then Some (to_size (int (length (impl (append_buf b src m))) - int (length (impl b))))
      else None)"
  by (simp add: append_count_def append_buf_def append_tb_def Let_def case_prod_beta
      end_tb_def to_size_def)

section \<open>Increasing timestamps\<close>

lemma increasing_times_last:
  "increasing_times xs \<Longrightarrow> x \<in> set xs \<Longrightarrow> time_ms x \<le> time_ms (last xs)"
proof (induction xs)
  case Nil
  then show ?case by simp
next
  case (Cons y ys)
  show ?case
  proof (cases "ys = []")
    case True
    with Cons.prems show ?thesis by simp
  next
    case False
    then have l: "last ys \<in> set ys" by simp
    from Cons.prems(1) have s: "increasing_times ys" and lt: "\<forall>z\<in>set ys. time_ms y < time_ms z"
      by (simp_all add: increasing_times_def)
    show ?thesis
    proof (cases "x = y")
      case True
      with lt l False show ?thesis by (simp add: less_imp_le)
    next
      case neq: False
      with Cons.prems(2) have "x \<in> set ys" by simp
      with Cons.IH [OF s] False show ?thesis by simp
    qed
  qed
qed

lemma increasing_times_snoc:
  assumes "increasing_times xs" and "xs \<noteq> [] \<Longrightarrow> time_ms (last xs) < time_ms r"
  shows "increasing_times (xs @ [r])"
proof (cases "xs = []")
  case True
  then show ?thesis by (simp add: increasing_times_def)
next
  case False
  have "time_ms x < time_ms r" if "x \<in> set xs" for x
    using increasing_times_last [OF assms(1) that] assms(2) [OF False] by simp
  with assms(1) show ?thesis
    by (simp add: increasing_times_def sorted_wrt_append)
qed

text \<open>
  With timestamps in range a reading is accepted only if it lies later than the last
  stored one, so the stored sequence stays increasing and in range.
\<close>

lemma increasing_times_spec_accept:
  assumes "increasing_times xs" and "list_all time_in_range xs" and "time_in_range r"
  shows "increasing_times (spec_accept m xs r)"
proof (cases "xs = []")
  case True
  then show ?thesis by (simp add: spec_accept_def increasing_times_def)
next
  case False
  then have "last xs \<in> set xs" by simp
  with assms(2) have "time_in_range (last xs)" by (simp add: list_all_iff)
  with assms(3) have dt: "dt64 (time_ms r) (time_ms (last xs)) = time_ms r - time_ms (last xs)"
    by (rule dt64_in_range)
  show ?thesis
  proof (cases "time_ms r - time_ms (last xs) > 0")
    case True
    then have "increasing_times (xs @ [r])"
      using assms(1) by (intro increasing_times_snoc) simp_all
    with assms(1) False show ?thesis by (simp add: spec_accept_def Let_def)
  next
    case no: False
    with assms(1) False dt show ?thesis by (simp add: spec_accept_def Let_def)
  qed
qed

lemma in_range_spec_accept:
  assumes "list_all time_in_range xs" and "time_in_range r"
  shows "list_all time_in_range (spec_accept m xs r)"
  using assms by (simp add: spec_accept_def Let_def)

lemma increasing_times_foldl:
  assumes "increasing_times xs" and "list_all time_in_range xs" and "list_all time_in_range rs"
  shows "increasing_times (foldl (spec_accept m) xs rs) \<and>
         list_all time_in_range (foldl (spec_accept m) xs rs)"
  using assms
proof (induction rs arbitrary: xs)
  case Nil
  then show ?case by simp
next
  case (Cons r rs)
  from Cons.prems have r: "time_in_range r" and rs: "list_all time_in_range rs" by simp_all
  have "increasing_times (spec_accept m xs r)"
    using Cons.prems(1,2) r by (rule increasing_times_spec_accept)
  moreover have "list_all time_in_range (spec_accept m xs r)"
    using Cons.prems(2) r by (rule in_range_spec_accept)
  ultimately show ?case using Cons.IH rs by simp
qed

lemma increasing_times_drop: "increasing_times xs \<Longrightarrow> increasing_times (drop k xs)"
  by (simp add: increasing_times_def drop_map [symmetric])

lemma in_range_drop: "list_all time_in_range xs \<Longrightarrow> list_all time_in_range (drop k xs)"
  by (auto simp: list_all_iff dest: in_set_dropD)

lemma impl_shrink: "impl (shrink_to_target_capacity b) = impl b"
  by (simp add: shrink_to_target_capacity_def)

lemma history_size_shrink: "history_size (shrink_to_target_capacity b) = history_size b"
  by (simp add: shrink_to_target_capacity_def)

lemma target_capacity_shrink: "target_capacity (shrink_to_target_capacity b) = target_capacity b"
  by (simp add: shrink_to_target_capacity_def)

text \<open>
  \<^verbatim>\<open>discard\<close> in one piece: the end of the erased range, the check on it, the buffer after
  \<^verbatim>\<open>erase\<close> and the one after the test on the capacity.
\<close>

lemma discard_unfold:
  "discard n keep b =
    (let e = begin_tb b + to_diff (min n (size_tb b)) - to_diff (min keep (length (impl b)));
         b2 = b\<lparr>history_size := min keep (length (impl b)), impl := drop (nat e) (impl b)\<rparr>
     in if e > 0 \<and> e > int (length (impl b)) then None
        else Some (to_size (to_diff (min n (size_tb b))),
                   if capacity b2 > (4 * target_capacity b) mod 2 ^ 64
                   then shrink_to_target_capacity b2 else b2))"
proof (cases "begin_tb b + to_diff (min n (size_tb b)) - to_diff (min keep (length (impl b))) > 0")
  case True
  then show ?thesis
    unfolding discard_def Let_def
    by (simp add: end_tb_def)
next
  case False
  then have "nat (begin_tb b + to_diff (min n (size_tb b))
      - to_diff (min keep (length (impl b)))) = 0" by simp
  then have "b\<lparr>history_size := min keep (length (impl b)),
       impl := drop (nat (begin_tb b + to_diff (min n (size_tb b))
         - to_diff (min keep (length (impl b))))) (impl b)\<rparr>
     = b\<lparr>history_size := min keep (length (impl b))\<rparr>"
    by simp
  with False show ?thesis
    unfolding discard_def Let_def
    by (simp add: end_tb_def)
qed

text \<open>Whenever \<^verbatim>\<open>discard\<close> has a result, it has erased a prefix of the stored sequence.\<close>

lemma discard_Some_impl:
  assumes "discard n keep b = Some (ndel, b')"
  shows "\<exists>k. impl b' = drop k (impl b)"
proof -
  define e where "e = begin_tb b + to_diff (min n (size_tb b)) - to_diff (min keep (length (impl b)))"
  define b2 where "b2 = b\<lparr>history_size := min keep (length (impl b)), impl := drop (nat e) (impl b)\<rparr>"
  from assms have "b' = (if capacity b2 > (4 * target_capacity b) mod 2 ^ 64
      then shrink_to_target_capacity b2 else b2)"
    unfolding discard_unfold Let_def e_def [symmetric] b2_def [symmetric]
    by (simp split: if_splits)
  then have "impl b' = drop (nat e) (impl b)"
    by (simp add: impl_shrink b2_def)
  then show ?thesis by blast
qed

lemma discard_Some_history_size:
  assumes "discard n keep b = Some (ndel, b')"
  shows "history_size b' = min keep (length (impl b))"
proof -
  define e where "e = begin_tb b + to_diff (min n (size_tb b)) - to_diff (min keep (length (impl b)))"
  define b2 where "b2 = b\<lparr>history_size := min keep (length (impl b)), impl := drop (nat e) (impl b)\<rparr>"
  from assms have "b' = (if capacity b2 > (4 * target_capacity b) mod 2 ^ 64
      then shrink_to_target_capacity b2 else b2)"
    unfolding discard_unfold Let_def e_def [symmetric] b2_def [symmetric]
    by (simp split: if_splits)
  then show ?thesis
    by (simp add: history_size_shrink b2_def)
qed

lemma discard_Some_target_capacity:
  assumes "discard n keep b = Some (ndel, b')"
  shows "target_capacity b' = target_capacity b"
proof -
  define e where "e = begin_tb b + to_diff (min n (size_tb b)) - to_diff (min keep (length (impl b)))"
  define b2 where "b2 = b\<lparr>history_size := min keep (length (impl b)), impl := drop (nat e) (impl b)\<rparr>"
  from assms have "b' = (if capacity b2 > (4 * target_capacity b) mod 2 ^ 64
      then shrink_to_target_capacity b2 else b2)"
    unfolding discard_unfold Let_def e_def [symmetric] b2_def [symmetric]
    by (simp split: if_splits)
  then show ?thesis
    by (simp add: target_capacity_shrink b2_def)
qed

text \<open>The invariant of a run: increasing timestamps, all of them in range.\<close>

lemma apply_op_invariant:
  assumes "apply_op x b = Some b'" and "op_in_range x"
    and "increasing_times (impl b)" and "list_all time_in_range (impl b)"
  shows "increasing_times (impl b') \<and> list_all time_in_range (impl b')"
proof (cases x)
  case (Append src m)
  with assms(2) have "list_all time_in_range (filter (\<lambda>r. \<not> deleted r) src)"
    by (simp add: list_all_iff)
  with assms(3,4) have "increasing_times (foldl (spec_accept m) (impl b) (filter (\<lambda>r. \<not> deleted r) src)) \<and>
      list_all time_in_range (foldl (spec_accept m) (impl b) (filter (\<lambda>r. \<not> deleted r) src))"
    by (rule increasing_times_foldl)
  with Append assms(1) show ?thesis by (auto simp: append_buf_impl)
next
  case (Discard n keep)
  with assms(1) obtain ndel where "discard n keep b = Some (ndel, b')" by auto
  then obtain k where "impl b' = drop k (impl b)"
    using discard_Some_impl by blast
  with assms(3,4) show ?thesis by (simp add: increasing_times_drop in_range_drop)
next
  case Clear
  with assms(1) show ?thesis by (auto simp: clear_def increasing_times_def)
next
  case Shrink
  with assms(1,3,4) show ?thesis by (auto simp: impl_shrink)
next
  case (Reserve n)
  with assms(1,3,4) show ?thesis by (auto simp: reserve_def)
qed

lemma run_invariant:
  assumes "run b ops = Some b'" and "list_all op_in_range ops"
    and "increasing_times (impl b)" and "list_all time_in_range (impl b)"
  shows "increasing_times (impl b') \<and> list_all time_in_range (impl b')"
  using assms
proof (induction ops arbitrary: b)
  case Nil
  then show ?case by simp
next
  case (Cons x xs)
  from Cons.prems(1) obtain b1 where x: "apply_op x b = Some b1" and xs: "run b1 xs = Some b'"
    by (auto split: option.splits)
  from Cons.prems(2) have rx: "op_in_range x" and rxs: "list_all op_in_range xs" by simp_all
  have "increasing_times (impl b1) \<and> list_all time_in_range (impl b1)"
    using x rx Cons.prems(3,4) by (rule apply_op_invariant)
  then show ?case using Cons.IH [OF xs rxs] by simp
qed

section \<open>Discard on a well-formed buffer\<close>

lemma well_formed_bounds:
  assumes "well_formed b"
  shows "history_size b \<le> length (impl b)" and "length (impl b) < 2 ^ 63"
    and "history_size b \<le> impl_capacity b" and "impl_capacity b < 2 ^ 64"
  using assms by (simp_all add: well_formed_def)

lemma size_tb_well_formed:
  assumes "well_formed b"
  shows "size_tb b = length (impl b) - history_size b"
proof -
  have le: "history_size b \<le> length (impl b)" and lt: "length (impl b) < 2 ^ 63"
    using well_formed_bounds [OF assms] by simp_all
  from lt have "length (impl b) - history_size b < 2 ^ 64" by simp
  then have "to_size (int (length (impl b) - history_size b)) = length (impl b) - history_size b"
    by (rule to_size_int)
  with le show ?thesis
    by (simp add: size_tb_def end_tb_def begin_tb_def)
qed

lemma capacity_le:
  assumes "history_size b \<le> impl_capacity b" and "impl_capacity b < 2 ^ 64"
  shows "capacity b = impl_capacity b - history_size b"
proof -
  from assms(2) have "impl_capacity b - history_size b < 2 ^ 64" by simp
  then have "to_size (int (impl_capacity b - history_size b)) = impl_capacity b - history_size b"
    by (rule to_size_int)
  with assms(1) show ?thesis
    by (simp add: capacity_def)
qed

lemma min_live_small:
  assumes "well_formed b"
  shows "min n (length (impl b) - history_size b) < 2 ^ 63"
proof -
  have "min n (length (impl b) - history_size b) \<le> length (impl b)" by simp
  with well_formed_bounds(2) [OF assms] show ?thesis by linarith
qed

lemma min_keep_small:
  assumes "well_formed b"
  shows "min keep (length (impl b)) < 2 ^ 63"
proof -
  have "min keep (length (impl b)) \<le> length (impl b)" by simp
  with well_formed_bounds(2) [OF assms] show ?thesis by linarith
qed

lemma discard_cut_le:
  assumes "well_formed b"
  shows "history_size b + min n (length (impl b) - history_size b) \<le> length (impl b)"
  using well_formed_bounds(1) [OF assms] by simp

text \<open>
  On a well-formed buffer \<^verbatim>\<open>discard\<close> has a result: \<open>c\<close> is the cut, \<open>k\<close> the new history
  size, and the readings before \<open>c - k\<close> are erased.
\<close>

lemma discard_well_formed_eq:
  assumes "well_formed b"
  shows "discard n keep b =
    (let k = min keep (length (impl b));
         c = history_size b + min n (length (impl b) - history_size b);
         b2 = b\<lparr>history_size := k, impl := drop (c - k) (impl b)\<rparr>
     in Some (min n (length (impl b) - history_size b),
              if capacity b2 > (4 * target_capacity b) mod 2 ^ 64
              then shrink_to_target_capacity b2 else b2))"
proof -
  define c where "c = history_size b + min n (length (impl b) - history_size b)"
  define k where "k = min keep (length (impl b))"
  have last_it: "begin_tb b + to_diff (min n (size_tb b)) = int c"
    by (simp add: c_def begin_tb_def size_tb_well_formed [OF assms]
        to_diff_int [OF min_live_small [OF assms]])
  have keep: "to_diff k = int k"
    by (simp add: k_def to_diff_int [OF min_keep_small [OF assms]])
  have e: "begin_tb b + to_diff (min n (size_tb b)) - to_diff k = int c - int k"
    unfolding last_it keep by (rule refl)
  have n: "nat (int c - int k) = c - k" by simp
  have "c \<le> length (impl b)"
    unfolding c_def using assms by (rule discard_cut_le)
  then have range: "\<not> (int c - int k > 0 \<and> int c - int k > int (length (impl b)))"
    by simp
  have "min n (length (impl b) - history_size b) < 2 ^ 64"
    using min_live_small [OF assms, of n] by simp
  then have "to_size (int (min n (length (impl b) - history_size b))) =
      min n (length (impl b) - history_size b)"
    by (rule to_size_int)
  then have ndel: "to_size (to_diff (min n (size_tb b))) = min n (length (impl b) - history_size b)"
    by (simp add: size_tb_well_formed [OF assms] to_diff_int [OF min_live_small [OF assms]])
  show ?thesis
    unfolding discard_unfold Let_def
    unfolding k_def [symmetric]
    unfolding e n ndel c_def [symmetric]
    using range by simp
qed

lemma discard_well_formed_result:
  assumes "well_formed b"
  shows "\<exists>b'. discard n keep b = Some (min n (size_tb b), b') \<and>
      history_size b' = min keep (length (impl b)) \<and>
      impl b' = drop (history_size b + min n (size_tb b) - min keep (length (impl b))) (impl b) \<and>
      target_capacity b' = target_capacity b \<and>
      (impl_capacity b' = impl_capacity b \<or>
       impl_capacity b' = max (target_capacity b) (length (impl b')))"
proof -
  define k where "k = min keep (length (impl b))"
  define c where "c = history_size b + min n (length (impl b) - history_size b)"
  define b2 where "b2 = b\<lparr>history_size := k, impl := drop (c - k) (impl b)\<rparr>"
  define b' where "b' = (if capacity b2 > (4 * target_capacity b) mod 2 ^ 64
      then shrink_to_target_capacity b2 else b2)"
  have "discard n keep b = Some (min n (size_tb b), b')"
    unfolding discard_well_formed_eq [OF assms] Let_def b'_def b2_def c_def k_def
      size_tb_well_formed [OF assms] by (rule refl)
  moreover have "history_size b' = min keep (length (impl b))"
    by (simp add: b'_def b2_def k_def history_size_shrink)
  moreover have "impl b' =
      drop (history_size b + min n (size_tb b) - min keep (length (impl b))) (impl b)"
    by (simp add: b'_def b2_def k_def c_def impl_shrink size_tb_well_formed [OF assms])
  moreover have "target_capacity b' = target_capacity b"
    by (simp add: b'_def b2_def target_capacity_shrink)
  moreover have "impl_capacity b' = impl_capacity b \<or>
       impl_capacity b' = max (target_capacity b) (length (impl b'))"
    by (simp add: b'_def b2_def shrink_to_target_capacity_def vec_assign_def vec_reserve_def max_def)
  ultimately show ?thesis by blast
qed

text \<open>The reserved storage after \<^verbatim>\<open>discard\<close>, where the four-fold target capacity fits \<^verbatim>\<open>size_type\<close>.\<close>

lemma discard_impl_capacity:
  assumes "well_formed b" and "4 * target_capacity b < 2 ^ 64"
    and "discard n keep b = Some (ndel, b')"
  shows "impl_capacity b' =
     (if impl_capacity b - min keep (length (impl b)) > 4 * target_capacity b
      then max (target_capacity b) (length (impl b'))
      else impl_capacity b)"
proof -
  define k where "k = min keep (length (impl b))"
  define c where "c = history_size b + min n (length (impl b) - history_size b)"
  define b2 where "b2 = b\<lparr>history_size := k, impl := drop (c - k) (impl b)\<rparr>"
  have kle: "k \<le> impl_capacity b"
    using assms(1) unfolding k_def well_formed_def by linarith
  have cap2: "capacity b2 = impl_capacity b - k"
    using kle well_formed_bounds(4) [OF assms(1)] by (simp add: capacity_le b2_def)
  have mod4: "4 * target_capacity b < 18446744073709551616"
    using assms(2) by simp
  have "discard n keep b = Some (min n (length (impl b) - history_size b),
      if capacity b2 > (4 * target_capacity b) mod 2 ^ 64
      then shrink_to_target_capacity b2 else b2)"
    unfolding discard_well_formed_eq [OF assms(1)] Let_def b2_def c_def k_def by (rule refl)
  with assms(3) have "Some (ndel, b') = Some (min n (length (impl b) - history_size b),
      if capacity b2 > (4 * target_capacity b) mod 2 ^ 64
      then shrink_to_target_capacity b2 else b2)"
    by (rule subst)
  then have d: "b' = (if capacity b2 > (4 * target_capacity b) mod 2 ^ 64
      then shrink_to_target_capacity b2 else b2)"
    by (simp only: option.inject prod.inject)
  have t2: "target_capacity b2 = target_capacity b" by (simp add: b2_def)
  have i2: "impl_capacity b2 = impl_capacity b" by (simp add: b2_def)
  show ?thesis
  proof (cases "impl_capacity b - k > 4 * target_capacity b")
    case True
    then have "\<not> capacity b2 \<le> target_capacity b2"
      by (simp add: cap2 t2)
    then have "impl_capacity (shrink_to_target_capacity b2) = max (target_capacity b) (length (impl b2))"
      by (simp add: shrink_to_target_capacity_def vec_assign_def vec_reserve_def t2 max_def)
    with True show ?thesis
      by (simp add: d cap2 mod4 impl_shrink k_def [symmetric])
  next
    case False
    then show ?thesis
      by (simp add: d cap2 mod4 i2 k_def [symmetric])
  qed
qed

section \<open>Concrete buffers\<close>

lemmas vec_defs = vec_reserve_def vec_grow_def vec_assign_def

lemmas step_defs = append_step_def dt64_def value_ne_def new_reading_def push_back_def

lemma append_ms_source:
  "append_buf (TransferBuffer_new default_target_capacity) ms_source 0 =
     \<lparr>impl = ms_source, impl_capacity = 4096, history_size = 0, target_capacity = 4096\<rparr>"
  by (simp add: append_buf_fold ms_source_def TransferBuffer_new_def
      default_target_capacity_def step_defs vec_defs)

lemma append_test_source:
  "append_buf (TransferBuffer_new default_target_capacity) test_source 0 =
     \<lparr>impl = [new_reading 1 1000, new_reading 2 2000, new_reading 2.1 3000, new_reading 2.1 3001],
      impl_capacity = 4096, history_size = 0, target_capacity = 4096\<rparr>"
  by (simp add: append_buf_fold test_source_def TransferBuffer_new_def
      default_target_capacity_def step_defs vec_defs)

lemma append_far_source:
  "append_buf (TransferBuffer_new default_target_capacity) far_source 0 =
     \<lparr>impl = far_source, impl_capacity = 4096, history_size = 0, target_capacity = 4096\<rparr>"
  by (simp add: append_buf_fold far_source_def TransferBuffer_new_def
      default_target_capacity_def step_defs vec_defs)

lemma grown_buffer_reached:
  "append_buf (TransferBuffer_new 1) ms_source 0 = grown_buffer"
  by (simp add: append_buf_fold ms_source_def TransferBuffer_new_def
      grown_buffer_def step_defs vec_defs)

lemma two_live_reached:
  "append_buf (TransferBuffer_new default_target_capacity)
     [new_reading 1 1000, new_reading 2 2000] 0 = two_live"
  by (simp add: append_buf_fold TransferBuffer_new_def two_live_def
      default_target_capacity_def step_defs vec_defs)

lemma well_formed_two_live: "well_formed two_live"
  by (simp add: well_formed_def two_live_def)

lemma well_formed_grown_buffer: "well_formed grown_buffer"
  by (simp add: well_formed_def grown_buffer_def ms_source_def)

lemma well_formed_five_stored: "well_formed five_stored"
  by (simp add: well_formed_def five_stored_def)

lemma well_formed_far_live: "well_formed far_live"
  by (simp add: well_formed_def far_live_def)

lemmas discard_eval_defs = Let_def capacity_def to_size_def shrink_to_target_capacity_def
  vec_defs size_max_def

lemma five_stored_reached:
  "run (TransferBuffer_new 2) [Append (take 5 ms_source) 0, Discard 1 1] = Some five_stored"
proof -
  have a: "append_buf (TransferBuffer_new 2) (take 5 ms_source) 0 = five_stored\<lparr>history_size := 0\<rparr>"
    by (simp add: append_buf_fold ms_source_def TransferBuffer_new_def
        five_stored_def step_defs vec_defs)
  have wf: "well_formed (five_stored\<lparr>history_size := 0\<rparr>)"
    by (simp add: well_formed_def five_stored_def)
  have "discard 1 1 (five_stored\<lparr>history_size := 0\<rparr>) = Some (1, five_stored)"
    unfolding discard_well_formed_eq [OF wf]
    by (simp add: five_stored_def discard_eval_defs)
  with a show ?thesis by simp
qed

lemma discard_one_history:
  "discard size_max 1 (one_history\<lparr>history_size := 0\<rparr>) = Some (1, one_history)"
proof -
  have wf: "well_formed (one_history\<lparr>history_size := 0\<rparr>)"
    by (simp add: well_formed_def one_history_def)
  show ?thesis
    unfolding discard_well_formed_eq [OF wf]
    by (simp add: one_history_def discard_eval_defs)
qed

lemma append_one_reading:
  "append_buf (TransferBuffer_new default_target_capacity) [new_reading 1 1000] 0 =
      one_history\<lparr>history_size := 0\<rparr>"
  by (simp add: append_buf_fold TransferBuffer_new_def one_history_def
      default_target_capacity_def step_defs vec_defs)

lemma one_history_reached:
  "run (TransferBuffer_new default_target_capacity)
     [Append [new_reading 1 1000] 0, Discard size_max 1] = Some one_history"
  using append_one_reading discard_one_history by simp

lemma stale_history_reached:
  "run (TransferBuffer_new default_target_capacity)
     [Append [new_reading 1 1000, new_reading 2 2000] 0, Discard size_max 2, Clear,
      Append [new_reading 1 6000] 0] = Some stale_history"
proof -
  have "discard size_max 2 two_live = Some (2, two_live\<lparr>history_size := 2\<rparr>)"
    unfolding discard_well_formed_eq [OF well_formed_two_live]
    by (simp add: two_live_def discard_eval_defs)
  moreover have "append_buf (clear (two_live\<lparr>history_size := 2\<rparr>)) [new_reading 1 6000] 0 =
      stale_history"
    by (simp add: append_buf_fold clear_def two_live_def stale_history_def step_defs vec_defs)
  ultimately show ?thesis using two_live_reached by simp
qed

section \<open>Claims on append\<close>


text \<open>
  C3. After any call to \<^verbatim>\<open>append\<close> every reading of the source is marked deleted, so
  every reading that was not deleted before the call is deleted after it, accepted or
  not; the source keeps its length, and the values and the timestamps of its readings
  are those before the call: the source after the call is the source before with every
  delete flag set.
\<close>

theorem append_consumes_source:
  "list_all deleted (append_src b src m) \<and>
   length (append_src b src m) = length src \<and>
   map val (append_src b src m) = map val src \<and>
   map time_ms (append_src b src m) = map time_ms src \<and>
   append_src b src m = map mark_delete src"
  by (simp add: append_src_eq list_all_deleted_mark mark_delete_def)

text \<open>
  C7. At most one copy: when \<^verbatim>\<open>append\<close> has been called on a source and nothing is pushed
  to the source afterwards, a second call of \<^verbatim>\<open>append\<close>, on any transfer buffer and with
  any minimal distance, returns 0 and leaves the buffer and the source as they are.
\<close>

theorem append_twice_copies_nothing:
  "append_tb b2 (append_src b src m) m2 = (Some 0, b2, append_src b src m)"
  by (simp add: append_src_eq append_all_deleted list_all_deleted_mark)

section \<open>Claims on sequences of operations\<close>

text \<open>
  C2, as stated, at one \<^verbatim>\<open>append\<close> into a fresh buffer of two readings of the same value,
  the first at 9 * 10^18 ms and the second at -9 * 10^18 ms: the 64-bit difference of
  the two timestamps wraps around to a positive number, the second reading is accepted,
  and the stored timestamps are not increasing.
\<close>

theorem run_increasing_counterexample:
  "run (TransferBuffer_new default_target_capacity) [Append far_source 0] =
     Some \<lparr>impl = far_source, impl_capacity = 4096, history_size = 0, target_capacity = 4096\<rparr> \<and>
   \<not> increasing_times far_source"
proof -
  have "\<not> increasing_times far_source"
    by (simp add: increasing_times_def far_source_def new_reading_def)
  then show ?thesis using append_far_source by simp
qed

text \<open>
  C2, amended. Starting from a freshly constructed transfer buffer of any target
  capacity, after every sequence of operations (\<^verbatim>\<open>append\<close> from any source, \<^verbatim>\<open>discard\<close>,
  \<^verbatim>\<open>clear\<close>, \<^verbatim>\<open>shrink_to_target_capacity\<close>, \<^verbatim>\<open>reserve\<close>) in which every timestamp appended
  lies between \<open>-2^62\<close> and \<open>2^62\<close> ms and every \<^verbatim>\<open>discard\<close> has a defined result (its
  erase range lies in the vector), the stored sequence, history and live readings
  together, has strictly increasing timestamps.
\<close>

theorem run_increasing_times:
  assumes "run (TransferBuffer_new nmax) ops = Some b" and "list_all op_in_range ops"
  shows "increasing_times (impl b)"
proof -
  have "increasing_times (impl (TransferBuffer_new nmax))"
    by (simp add: TransferBuffer_new_def increasing_times_def)
  moreover have "list_all time_in_range (impl (TransferBuffer_new nmax))"
    by (simp add: TransferBuffer_new_def)
  ultimately have "increasing_times (impl b) \<and> list_all time_in_range (impl b)"
    using assms by (intro run_invariant)
  then show ?thesis by simp
qed

text \<open>
  The unit test \<^verbatim>\<open>filter_by_time\<close> as a run: \<^verbatim>\<open>append\<close>, \<^verbatim>\<open>discard()\<close>, and \<^verbatim>\<open>append\<close> of the
  same readings once more.
\<close>

theorem run_increasing_times_witness:
  "run (TransferBuffer_new default_target_capacity)
     [Append test_source 0, Discard size_max 1, Append test_source 0] =
     Some \<lparr>impl = [new_reading 2.1 3001], impl_capacity = 4096, history_size = 1,
           target_capacity = 4096\<rparr> \<and>
   list_all op_in_range [Append test_source 0, Discard size_max 1, Append test_source 0] \<and>
   increasing_times [new_reading 2.1 3001]"
proof -
  define b1 where "b1 = \<lparr>impl = [new_reading 1 1000, new_reading 2 2000, new_reading 2.1 3000,
      new_reading 2.1 3001], impl_capacity = 4096, history_size = 0, target_capacity = 4096\<rparr>"
  define b2 where "b2 = \<lparr>impl = [new_reading 2.1 3001], impl_capacity = 4096, history_size = 1,
      target_capacity = 4096\<rparr>"
  have a1: "append_buf (TransferBuffer_new default_target_capacity) test_source 0 = b1"
    unfolding b1_def by (rule append_test_source)
  have wf: "well_formed b1" by (simp add: well_formed_def b1_def)
  have d: "discard size_max 1 b1 = Some (4, b2)"
    unfolding discard_well_formed_eq [OF wf]
    by (simp add: b1_def b2_def discard_eval_defs)
  have a2: "append_buf b2 test_source 0 = b2"
    by (simp add: append_buf_fold test_source_def b2_def step_defs)
  have r: "run (TransferBuffer_new default_target_capacity)
     [Append test_source 0, Discard size_max 1, Append test_source 0] = Some b2"
    using a1 d a2 by simp
  have o: "list_all op_in_range [Append test_source 0, Discard size_max 1, Append test_source 0]"
    by (simp add: test_source_def time_in_range_def new_reading_def)
  from run_increasing_times [OF r o] r o show ?thesis
    by (simp add: b2_def)
qed

section \<open>The deduplication scenario\<close>

text \<open>
  C10, as stated: one \<^verbatim>\<open>append\<close> into an initially empty buffer of the readings at the
  millisecond timestamps 1000, 2000, 3000, 3200, 3499, 3500, 3990, 4000, with
  \<^verbatim>\<open>min_ms_between_duplicates = 0\<close>, accepts exactly four readings, stored at 1000, 2000,
  3000 and 4001, and returns 4. It does not: every one of these readings lies later than
  the one before it, and with the minimal distance 0 each one is accepted.
\<close>

theorem dedup_scenario_counterexample:
  "\<not> (append_count (TransferBuffer_new default_target_capacity) ms_source 0 = Some 4 \<and>
      map time_ms (impl (append_buf (TransferBuffer_new default_target_capacity) ms_source 0)) =
        [1000, 2000, 3000, 4001])"
proof -
  have "append_count (TransferBuffer_new default_target_capacity) ms_source 0 = Some 8"
    unfolding append_count_eq append_ms_source
    by (simp add: TransferBuffer_new_def default_target_capacity_def vec_reserve_def
        ms_source_def to_size_def)
  then show ?thesis by simp
qed

text \<open>
  C10, amended. On the readings at the millisecond timestamps of the claim, one \<^verbatim>\<open>append\<close>
  into a freshly constructed buffer of the default target capacity with
  \<^verbatim>\<open>min_ms_between_duplicates = 0\<close> accepts all eight and returns 8. On the readings of the
  unit test \<^verbatim>\<open>filter_by_time\<close>, whose last five lie at 3 s plus 200, 499, 500, 990 and 1000
  microseconds, that is at 3000, 3000, 3000, 3000 and 3001 ms, it accepts exactly four,
  stored at 1000, 2000, 3000 and 3001, and returns 4.
\<close>

theorem dedup_scenario_amended:
  "append_count (TransferBuffer_new default_target_capacity) ms_source 0 = Some 8 \<and>
   map time_ms (live (append_buf (TransferBuffer_new default_target_capacity) ms_source 0)) =
     [1000, 2000, 3000, 3200, 3499, 3500, 3990, 4000] \<and>
   append_count (TransferBuffer_new default_target_capacity) test_source 0 = Some 4 \<and>
   map time_ms (live (append_buf (TransferBuffer_new default_target_capacity) test_source 0)) =
     [1000, 2000, 3000, 3001]"
proof -
  have "append_count (TransferBuffer_new default_target_capacity) ms_source 0 = Some 8"
    unfolding append_count_eq append_ms_source
    by (simp add: TransferBuffer_new_def default_target_capacity_def vec_reserve_def
        ms_source_def to_size_def)
  moreover have "map time_ms
      (live (append_buf (TransferBuffer_new default_target_capacity) ms_source 0)) =
      [1000, 2000, 3000, 3200, 3499, 3500, 3990, 4000]"
    unfolding append_ms_source by (simp add: live_def ms_source_def new_reading_def)
  moreover have "append_count (TransferBuffer_new default_target_capacity) test_source 0 = Some 4"
    unfolding append_count_eq append_test_source
    by (simp add: TransferBuffer_new_def default_target_capacity_def vec_reserve_def to_size_def)
  moreover have "map time_ms
      (live (append_buf (TransferBuffer_new default_target_capacity) test_source 0)) =
      [1000, 2000, 3000, 3001]"
    unfolding append_test_source by (simp add: live_def new_reading_def)
  ultimately show ?thesis by simp
qed

section \<open>Clear\<close>

text \<open>
  C4, at a buffer that holds history: after \<^verbatim>\<open>append\<close> of one reading and \<^verbatim>\<open>discard()\<close> with
  the default arguments, which returns 1, the reading is the history. \<^verbatim>\<open>clear()\<close> then
  empties the vector and leaves the history size at 1, so the history size exceeds the
  stored size, \<^verbatim>\<open>empty()\<close> is false and \<^verbatim>\<open>size()\<close> is the largest value of \<^verbatim>\<open>size_type\<close>.
\<close>

theorem clear_keeps_history_size:
  "discard size_max 1
     (append_buf (TransferBuffer_new default_target_capacity) [new_reading 1 1000] 0) =
     Some (1, one_history) \<and>
   history_size (clear one_history) = 1 \<and>
   impl (clear one_history) = [] \<and>
   \<not> empty_tb (clear one_history) \<and>
   size_tb (clear one_history) = size_max"
proof -
  have "discard size_max 1
     (append_buf (TransferBuffer_new default_target_capacity) [new_reading 1 1000] 0) =
     Some (1, one_history)"
    unfolding append_one_reading by (rule discard_one_history)
  then show ?thesis
    by (simp add: clear_def one_history_def empty_tb_def size_tb_def begin_tb_def end_tb_def
        to_size_def size_max_def)
qed

text \<open>
  On the buffer that \<^verbatim>\<open>clear()\<close> leaves behind, \<^verbatim>\<open>discard(0, 1)\<close> asks \<^verbatim>\<open>erase\<close> for the first
  element of an empty vector.
\<close>

lemma discard_after_clear: "discard 0 1 (clear one_history) = None"
  by (simp add: discard_def Let_def clear_def one_history_def begin_tb_def end_tb_def
      size_tb_def to_size_def to_diff_def)

text \<open>
  The other operations keep the history inside the stored sequence.
\<close>

lemma length_spec_accept: "length xs \<le> length (spec_accept m xs r)"
  by (simp add: spec_accept_def Let_def)

lemma length_foldl_spec_accept: "length xs \<le> length (foldl (spec_accept m) xs rs)"
proof (induction rs arbitrary: xs)
  case Nil
  show ?case by simp
next
  case (Cons r rs)
  have "length xs \<le> length (spec_accept m xs r)" by (rule length_spec_accept)
  also have "\<dots> \<le> length (foldl (spec_accept m) (spec_accept m xs r) rs)" by (rule Cons.IH)
  finally show ?case by simp
qed

lemma discard_history_le:
  assumes "well_formed b" and "discard n keep b = Some (ndel, b')"
  shows "history_size b' \<le> length (impl b')"
proof -
  obtain b'' where r: "discard n keep b = Some (min n (size_tb b), b'')"
    and h: "history_size b'' = min keep (length (impl b))"
    and i: "impl b'' =
      drop (history_size b + min n (size_tb b) - min keep (length (impl b))) (impl b)"
    using discard_well_formed_result [OF assms(1)] by blast
  from r assms(2) have "b'' = b'" by simp
  moreover have "history_size b + min n (size_tb b) \<le> length (impl b)"
    using discard_cut_le [OF assms(1), of n] by (simp add: size_tb_well_formed [OF assms(1)])
  ultimately show ?thesis using h i by auto
qed

lemma history_le_kept:
  "history_size (TransferBuffer_new nmax) \<le> length (impl (TransferBuffer_new nmax))"
  "history_size b \<le> length (impl b) \<Longrightarrow>
     history_size (append_buf b src m) \<le> length (impl (append_buf b src m))"
  "well_formed b \<Longrightarrow> discard n keep b = Some (ndel, b') \<Longrightarrow>
     history_size b' \<le> length (impl b')"
  "history_size b \<le> length (impl b) \<Longrightarrow>
     history_size (shrink_to_target_capacity b) \<le> length (impl (shrink_to_target_capacity b))"
  "history_size b \<le> length (impl b) \<Longrightarrow>
     history_size (reserve n b) \<le> length (impl (reserve n b))"
proof -
  show "history_size (TransferBuffer_new nmax) \<le> length (impl (TransferBuffer_new nmax))"
    by (simp add: TransferBuffer_new_def)
  show "history_size (append_buf b src m) \<le> length (impl (append_buf b src m))"
    if "history_size b \<le> length (impl b)"
    using that length_foldl_spec_accept [of "impl b" m "filter (\<lambda>r. \<not> deleted r) src"]
    by (simp add: append_buf_history_size append_buf_impl)
  show "history_size b' \<le> length (impl b')"
    if "well_formed b" and "discard n keep b = Some (ndel, b')"
    using that by (rule discard_history_le)
  show "history_size (shrink_to_target_capacity b) \<le> length (impl (shrink_to_target_capacity b))"
    if "history_size b \<le> length (impl b)"
    using that by (simp add: impl_shrink history_size_shrink)
  show "history_size (reserve n b) \<le> length (impl (reserve n b))"
    if "history_size b \<le> length (impl b)"
    using that by (simp add: reserve_def)
qed

section \<open>Discard\<close>

text \<open>
  C5, at \<^verbatim>\<open>discard(0, 1)\<close> on a buffer of two live readings and no history: the call returns
  0 and erases nothing, and yet the first live reading has left the live region, for
  the new history size is 1 and the reading is the history now. The live region
  afterwards is not the previous one from position \<open>min n s = 0\<close> onward, and the return
  value is not the number of readings removed from the live view.
\<close>

theorem discard_zero_hides_reading:
  "size_tb two_live = 2 \<and>
   live two_live = [new_reading 1 1000, new_reading 2 2000] \<and>
   discard 0 1 two_live = Some (0, two_live\<lparr>history_size := 1\<rparr>) \<and>
   live (two_live\<lparr>history_size := 1\<rparr>) = [new_reading 2 2000] \<and>
   history (two_live\<lparr>history_size := 1\<rparr>) = [new_reading 1 1000]"
proof -
  have "discard 0 1 two_live = Some (0, two_live\<lparr>history_size := 1\<rparr>)"
    unfolding discard_well_formed_eq [OF well_formed_two_live]
    by (simp add: two_live_def discard_eval_defs)
  moreover have "size_tb two_live = 2"
    by (simp add: size_tb_well_formed [OF well_formed_two_live]) (simp add: two_live_def)
  ultimately show ?thesis
    by (simp add: live_def history_def two_live_def)
qed

text \<open>
  Where the new history does not reach behind the cut, \<^verbatim>\<open>discard\<close> on a well-formed buffer
  does what C5 says.
\<close>

lemma discard_within_cut:
  assumes "well_formed b"
    and "min keep (length (impl b)) \<le> history_size b + min n (size_tb b)"
  shows "\<exists>b'. discard n keep b = Some (min n (size_tb b), b') \<and>
      live b' = drop (min n (size_tb b)) (live b) \<and>
      history_size b' = min keep (length (impl b))"
proof -
  obtain b' where r: "discard n keep b = Some (min n (size_tb b), b')"
    and h: "history_size b' = min keep (length (impl b))"
    and i: "impl b' =
      drop (history_size b + min n (size_tb b) - min keep (length (impl b))) (impl b)"
    using discard_well_formed_result [OF assms(1)] by blast
  have "live b' = drop (min n (size_tb b)) (live b)"
    using assms(2) by (simp add: live_def h i add.commute)
  with r h show ?thesis by blast
qed

section \<open>Shrinking to the target capacity\<close>

text \<open>
  C9, as stated, at a buffer of five stored readings in storage reserved for eight, with
  target capacity 2: the reserved storage exceeds the target capacity, with or without
  the history counted, and after \<^verbatim>\<open>shrink_to_target_capacity()\<close> the backing store is not
  sized to the target capacity, since the five readings must fit.
\<close>

theorem shrink_counterexample:
  "target_capacity five_stored < impl_capacity five_stored \<and>
   target_capacity five_stored < capacity five_stored \<and>
   impl_capacity (shrink_to_target_capacity five_stored) \<noteq> target_capacity five_stored"
  by (simp add: shrink_to_target_capacity_def capacity_def to_size_def vec_defs five_stored_def)

text \<open>
  C9, amended. If \<^verbatim>\<open>capacity()\<close>, the reserved storage less the history size, exceeds the
  target capacity, then after \<^verbatim>\<open>shrink_to_target_capacity()\<close> the backing store is sized to
  the larger of the target capacity and the number of stored readings, hence exactly
  to the target capacity when the stored readings fit into it, and it holds the same
  readings, history and live, in the same order; if \<^verbatim>\<open>capacity()\<close> does not exceed the
  target capacity, the call changes nothing.
\<close>

theorem shrink_to_target_capacity_effect:
  "(target_capacity b < capacity b \<longrightarrow>
      impl_capacity (shrink_to_target_capacity b) = max (target_capacity b) (length (impl b)) \<and>
      (length (impl b) \<le> target_capacity b \<longrightarrow>
         impl_capacity (shrink_to_target_capacity b) = target_capacity b) \<and>
      impl (shrink_to_target_capacity b) = impl b \<and>
      history_size (shrink_to_target_capacity b) = history_size b \<and>
      target_capacity (shrink_to_target_capacity b) = target_capacity b) \<and>
   (capacity b \<le> target_capacity b \<longrightarrow> shrink_to_target_capacity b = b)"
  by (simp add: shrink_to_target_capacity_def vec_defs max_def)

theorem shrink_to_target_capacity_effect_witness:
  "target_capacity five_stored < capacity five_stored \<and>
   impl_capacity (shrink_to_target_capacity five_stored) = 5 \<and>
   impl (shrink_to_target_capacity five_stored) = impl five_stored \<and>
   capacity two_live \<le> target_capacity two_live \<and>
   shrink_to_target_capacity two_live = two_live"
proof -
  have a: "target_capacity five_stored < capacity five_stored"
    by (simp add: capacity_def to_size_def five_stored_def)
  have b: "capacity two_live \<le> target_capacity two_live"
    by (simp add: capacity_def to_size_def two_live_def)
  have c: "max (target_capacity five_stored) (length (impl five_stored)) = 5"
    by (simp add: five_stored_def)
  from a b c shrink_to_target_capacity_effect [of five_stored]
    shrink_to_target_capacity_effect [of two_live]
  show ?thesis by simp
qed

section \<open>The capacity after discard\<close>

text \<open>
  C8, as stated, at the buffer reached from a fresh one of target capacity 1 by one
  \<^verbatim>\<open>append\<close> of eight readings: after \<^verbatim>\<open>discard(1, 1)\<close> eight readings are still stored, and
  the reserved storage exceeds four times the target capacity, with or without the
  history counted.
\<close>

theorem discard_capacity_counterexample:
  "discard 1 1 (append_buf (TransferBuffer_new 1) ms_source 0) =
     Some (1, grown_buffer\<lparr>history_size := 1\<rparr>) \<and>
   \<not> impl_capacity (grown_buffer\<lparr>history_size := 1\<rparr>)
        \<le> 4 * target_capacity (grown_buffer\<lparr>history_size := 1\<rparr>) \<and>
   \<not> capacity (grown_buffer\<lparr>history_size := 1\<rparr>)
        \<le> 4 * target_capacity (grown_buffer\<lparr>history_size := 1\<rparr>)"
proof -
  have "discard 1 1 grown_buffer = Some (1, grown_buffer\<lparr>history_size := 1\<rparr>)"
    unfolding discard_well_formed_eq [OF well_formed_grown_buffer]
    by (simp add: grown_buffer_def ms_source_def discard_eval_defs)
  then show ?thesis
    unfolding grown_buffer_reached
    by (simp add: grown_buffer_def capacity_def to_size_def)
qed

lemma discard_well_formed:
  assumes "well_formed b" and "4 * target_capacity b < 2 ^ 64"
    and "discard n keep b = Some (ndel, b')"
  shows "well_formed b'"
proof -
  have h: "history_size b' \<le> length (impl b')"
    using assms(1,3) by (rule discard_history_le)
  obtain k where "impl b' = drop k (impl b)"
    using discard_Some_impl [OF assms(3)] by blast
  then have l: "length (impl b') \<le> length (impl b)" by simp
  have b1: "length (impl b) \<le> impl_capacity b" and b2: "impl_capacity b < 2 ^ 63"
    using assms(1) by (simp_all add: well_formed_def)
  have c: "length (impl b') \<le> impl_capacity b'"
    using l b1 by (simp add: discard_impl_capacity [OF assms])
  have t: "target_capacity b < 2 ^ 63" using assms(2) by simp
  have "length (impl b') < 2 ^ 63"
    using l b1 b2 by linarith
  with t b2 have "impl_capacity b' < 2 ^ 63"
    by (simp add: discard_impl_capacity [OF assms])
  with h c show ?thesis by (simp add: well_formed_def)
qed

text \<open>
  C8, amended. After every call to \<^verbatim>\<open>discard\<close> on a buffer that satisfies the invariants of
  the data model and whose four-fold target capacity fits \<^verbatim>\<open>size_type\<close>, \<^verbatim>\<open>capacity()\<close>,
  the reserved storage less the history size, is at most the larger of
  \<open>4 * target_capacity\<close> and the number of live readings, and the reserved storage of the
  backing store is at most the larger of \<open>4 * target_capacity\<close> plus the history size and
  the number of stored readings. The bound \<open>4 * target_capacity\<close> on \<^verbatim>\<open>capacity()\<close> holds
  whenever no more than that many live readings remain.
\<close>

theorem discard_capacity_bound:
  assumes "well_formed b" and "4 * target_capacity b < 2 ^ 64"
  shows "\<exists>ndel b'. discard n keep b = Some (ndel, b') \<and>
           capacity b' \<le> max (4 * target_capacity b) (size_tb b') \<and>
           impl_capacity b' \<le>
             max (4 * target_capacity b + history_size b') (length (impl b'))"
proof -
  obtain b' where d: "discard n keep b = Some (min n (size_tb b), b')"
    using discard_well_formed_result [OF assms(1)] by blast
  have wf: "well_formed b'"
    using assms d by (rule discard_well_formed)
  have k: "history_size b' = min keep (length (impl b))"
    using d by (rule discard_Some_history_size)
  have cap: "capacity b' = impl_capacity b' - history_size b'"
    using well_formed_bounds [OF wf] by (simp add: capacity_le)
  have sz: "size_tb b' = length (impl b') - history_size b'"
    using wf by (rule size_tb_well_formed)
  have ic: "impl_capacity b' =
     (if impl_capacity b - history_size b' > 4 * target_capacity b
      then max (target_capacity b) (length (impl b')) else impl_capacity b)"
    unfolding k using assms d by (rule discard_impl_capacity)
  have "impl_capacity b' - history_size b' \<le>
          max (4 * target_capacity b) (length (impl b') - history_size b')"
    unfolding ic by (auto simp: max_def)
  moreover have "impl_capacity b' \<le>
          max (4 * target_capacity b + history_size b') (length (impl b'))"
    unfolding ic by (auto simp: max_def)
  ultimately have "capacity b' \<le> max (4 * target_capacity b) (size_tb b') \<and>
      impl_capacity b' \<le> max (4 * target_capacity b + history_size b') (length (impl b'))"
    unfolding cap sz by simp
  with d show ?thesis by blast
qed

theorem discard_capacity_bound_witness:
  "well_formed grown_buffer \<and> 4 * target_capacity grown_buffer < 2 ^ 64 \<and>
   discard size_max 1 grown_buffer =
     Some (8, \<lparr>impl = [new_reading 2.1 4000], impl_capacity = 1, history_size = 1,
               target_capacity = 1\<rparr>) \<and>
   capacity \<lparr>impl = [new_reading 2.1 4000], impl_capacity = 1, history_size = 1,
             target_capacity = 1\<rparr> \<le> 4 \<and>
   impl_capacity \<lparr>impl = [new_reading 2.1 4000], impl_capacity = 1, history_size = 1,
                  target_capacity = 1\<rparr> \<le> 5"
proof -
  define x where "x = \<lparr>impl = [new_reading 2.1 4000], impl_capacity = 1, history_size = 1,
      target_capacity = 1\<rparr>"
  have t: "4 * target_capacity grown_buffer < 2 ^ 64"
    by (simp add: grown_buffer_def)
  have d: "discard size_max 1 grown_buffer = Some (8, x)"
    unfolding discard_well_formed_eq [OF well_formed_grown_buffer]
    by (simp add: grown_buffer_def ms_source_def x_def discard_eval_defs)
  from discard_capacity_bound [OF well_formed_grown_buffer t, of size_max 1] d
  have "capacity x \<le> max (4 * target_capacity grown_buffer) (size_tb x) \<and>
        impl_capacity x \<le> max (4 * target_capacity grown_buffer + history_size x) (length (impl x))"
    by auto
  moreover have "size_tb x = 0"
    by (simp add: x_def size_tb_def begin_tb_def end_tb_def to_size_def)
  moreover have "target_capacity grown_buffer = 1" by (simp add: grown_buffer_def)
  moreover have "history_size x = 1" and "length (impl x) = 1" by (simp_all add: x_def)
  ultimately have "capacity x \<le> 4 \<and> impl_capacity x \<le> 5" by simp
  with well_formed_grown_buffer t d show ?thesis
    unfolding x_def by simp
qed

section \<open>History across discard and append\<close>

lemma append_step_reject:
  assumes "time_in_range r" and "time_in_range (last (impl b))"
    and "time_ms r \<le> time_ms (last (impl b))"
  shows "append_step m b r = b"
  using assms(3) by (simp add: append_step_def Let_def dt64_in_range [OF assms(1,2)])

lemma foldl_append_step_reject:
  assumes "time_in_range (last (impl b))"
    and "\<forall>r\<in>set rs. time_in_range r \<and> time_ms r \<le> time_ms (last (impl b))"
  shows "foldl (append_step m) b rs = b"
  using assms(2) by (induction rs) (simp_all add: append_step_reject [OF _ assms(1)])

lemma append_buf_fold_stored:
  assumes "impl b \<noteq> []"
  shows "append_buf b src m = foldl (append_step m) b (filter (\<lambda>r. \<not> deleted r) src)"
  using assms by (simp add: append_buf_fold split: list.split)

lemma append_tb_reject:
  assumes "impl b \<noteq> []" and "time_in_range (last (impl b))"
    and "\<forall>r\<in>set src. time_in_range r \<and> time_ms r \<le> time_ms (last (impl b))"
  shows "append_tb b src m = (Some 0, b, map mark_delete src)"
proof -
  have "\<forall>r\<in>set (filter (\<lambda>r. \<not> deleted r) src).
      time_in_range r \<and> time_ms r \<le> time_ms (last (impl b))"
    using assms(3) by simp
  then have "foldl (append_step m) b (filter (\<lambda>r. \<not> deleted r) src) = b"
    using assms(2) by (intro foldl_append_step_reject)
  then have buf: "append_buf b src m = b"
    by (simp add: append_buf_fold_stored [OF assms(1)])
  have cnt: "append_count b src m = Some 0"
    unfolding append_count_eq buf by (simp add: to_size_def)
  have "append_tb b src m = (append_count b src m, append_buf b src m, append_src b src m)"
    by (simp add: append_count_def append_buf_def append_src_def)
  then show ?thesis by (simp add: buf cnt append_src_eq)
qed

lemma drop_to_last: "xs \<noteq> [] \<Longrightarrow> drop (length xs - Suc 0) xs = [last xs]"
  by (induction xs) (simp_all add: drop_Cons')

text \<open>
  C6, as stated, at two buffers that store one reading each. The first is the buffer
  left behind by \<^verbatim>\<open>clear()\<close>, with the reading at 6000 ms and a history size of 2:
  \<^verbatim>\<open>discard(0, 1)\<close> erases the reading, nothing survives, and the next \<^verbatim>\<open>append\<close> accepts a
  reading at 5000 ms against an empty baseline. The second holds a live reading at
  9 * 10^18 ms: \<^verbatim>\<open>discard()\<close> keeps it as the history, and the next \<^verbatim>\<open>append\<close> accepts a
  reading of the same value at -9 * 10^18 ms, since the 64-bit difference wraps around.
\<close>

theorem discard_baseline_counterexample:
  "discard 0 1 stale_history = Some (0, stale_history\<lparr>impl := [], history_size := 1\<rparr>) \<and>
   impl (append_buf (stale_history\<lparr>impl := [], history_size := 1\<rparr>) [new_reading 1 5000] 0) =
     [new_reading 1 5000] \<and>
   discard size_max 1 far_live = Some (1, far_live\<lparr>history_size := 1\<rparr>) \<and>
   impl (append_buf (far_live\<lparr>history_size := 1\<rparr>) [new_reading 1 (- 9000000000000000000)] 0) =
     [new_reading 1 9000000000000000000, new_reading 1 (- 9000000000000000000)]"
proof -
  have "discard 0 1 stale_history = Some (0, stale_history\<lparr>impl := [], history_size := 1\<rparr>)"
    by (simp add: discard_unfold Let_def stale_history_def begin_tb_def size_tb_def end_tb_def
        to_size_def to_diff_def capacity_def)
  moreover have "impl (append_buf (stale_history\<lparr>impl := [], history_size := 1\<rparr>)
      [new_reading 1 5000] 0) = [new_reading 1 5000]"
    by (simp add: append_buf_impl spec_accept_def new_reading_def)
  moreover have "discard size_max 1 far_live = Some (1, far_live\<lparr>history_size := 1\<rparr>)"
    unfolding discard_well_formed_eq [OF well_formed_far_live]
    by (simp add: far_live_def discard_eval_defs)
  moreover have "impl (append_buf (far_live\<lparr>history_size := 1\<rparr>)
      [new_reading 1 (- 9000000000000000000)] 0) =
      [new_reading 1 9000000000000000000, new_reading 1 (- 9000000000000000000)]"
    by (simp add: append_buf_impl spec_accept_def far_live_def new_reading_def dt64_def)
  ultimately show ?thesis by simp
qed

text \<open>
  C6, amended. History retention: let \<^verbatim>\<open>discard(n, keep = 1)\<close> be called on a buffer that
  satisfies the invariants of the data model (in particular, its history lies within
  the stored sequence), stores at least one reading, and whose stored timestamps are
  increasing and lie between \<open>-2^62\<close> and \<open>2^62\<close> ms. The call has a defined result.
  Afterwards one reading is history, something is stored, and the last stored reading
  is the one that was last before; a call that discards all live readings leaves exactly
  this reading, as the history; a call that discards some live readings keeps the last
  of them as the history. The next \<^verbatim>\<open>append\<close> decides a candidate with a timestamp in that
  range against the last surviving reading with the rule of C1, not against an empty
  baseline; and when no reading of a source is later than it, the call appends nothing
  and returns 0. The reading kept as history is never later than the last surviving one.
\<close>

theorem discard_keeps_baseline:
  assumes "well_formed b" and "impl b \<noteq> []" and "increasing_times (impl b)"
    and "list_all time_in_range (impl b)"
  shows "\<exists>ndel b'. discard n 1 b = Some (ndel, b') \<and>
      history_size b' = 1 \<and>
      history b' = [hd (impl b')] \<and>
      impl b' \<noteq> [] \<and>
      last (impl b') = last (impl b) \<and>
      time_ms (hd (impl b')) \<le> time_ms (last (impl b)) \<and>
      (size_tb b \<le> n \<longrightarrow> impl b' = [last (impl b)] \<and> live b' = []) \<and>
      (0 < min n (size_tb b) \<longrightarrow> history b' = [live b ! (min n (size_tb b) - 1)]) \<and>
      (\<forall>r m. \<not> deleted r \<and> time_in_range r \<longrightarrow>
         impl (append_buf b' [r] m) =
           (if time_ms r - time_ms (last (impl b)) > 0 \<and>
               (time_ms r - time_ms (last (impl b)) \<ge> m \<or>
                value_ne (val r) (val (last (impl b))))
            then impl b' @ [r] else impl b')) \<and>
      (\<forall>src m. (\<forall>r\<in>set src. time_in_range r \<and> time_ms r \<le> time_ms (last (impl b))) \<longrightarrow>
         append_tb b' src m = (Some 0, b', map mark_delete src))"
proof -
  define c where "c = history_size b + min n (length (impl b) - history_size b)"
  have len: "0 < length (impl b)" using assms(2) by simp
  have k1: "min 1 (length (impl b)) = 1" using len by linarith
  obtain b' where d: "discard n 1 b = Some (min n (size_tb b), b')"
    and hs0: "history_size b' = min 1 (length (impl b))"
    and im0: "impl b' = drop (history_size b + min n (size_tb b) - min 1 (length (impl b))) (impl b)"
    using discard_well_formed_result [OF assms(1)] by blast
  have cle: "c \<le> length (impl b)"
    unfolding c_def using assms(1) by (rule discard_cut_le)
  have hs: "history_size b' = 1"
    unfolding hs0 by (rule k1)
  have im: "impl b' = drop (c - 1) (impl b)"
    unfolding im0 k1 c_def size_tb_well_formed [OF assms(1)] by (rule refl)
  have lt: "c - 1 < length (impl b)" using cle len by linarith
  then have ne: "impl b' \<noteq> []" by (simp add: im)
  have la: "last (impl b') = last (impl b)"
    using lt by (simp add: im)
  have "last (impl b) \<in> set (impl b)" using assms(2) by simp
  with assms(4) have lr: "time_in_range (last (impl b))" by (simp add: list_all_iff)
  have hi: "history b' = [hd (impl b')]"
    using ne by (simp add: history_def hs take_Suc)
  have "increasing_times (impl b')"
    unfolding im using assms(3) by (rule increasing_times_drop)
  moreover have "hd (impl b') \<in> set (impl b')" using ne by simp
  ultimately have "time_ms (hd (impl b')) \<le> time_ms (last (impl b'))"
    by (rule increasing_times_last)
  then have hl: "time_ms (hd (impl b')) \<le> time_ms (last (impl b))" by (simp add: la)
  have all: "impl b' = [last (impl b)] \<and> live b' = []" if "size_tb b \<le> n"
  proof -
    from that have "c = length (impl b)"
      using well_formed_bounds(1) [OF assms(1)]
      by (simp add: c_def size_tb_well_formed [OF assms(1)] min_def)
    then have "impl b' = [last (impl b)]"
      using assms(2) by (simp add: im drop_to_last)
    then show ?thesis by (simp add: live_def hs)
  qed
  have sent: "history b' = [live b ! (min n (size_tb b) - 1)]" if "0 < min n (size_tb b)"
  proof -
    define j where "j = min n (length (impl b) - history_size b) - 1"
    from that have m: "min n (length (impl b) - history_size b) = Suc j"
      by (simp add: j_def size_tb_well_formed [OF assms(1)])
    then have cj: "c - Suc 0 = history_size b + j" by (simp add: c_def)
    have "hd (impl b') = impl b ! (history_size b + j)"
      using lt by (simp add: im hd_drop_conv_nth cj)
    moreover have "live b ! j = impl b ! (history_size b + j)"
      using well_formed_bounds(1) [OF assms(1)] by (simp add: live_def)
    ultimately show ?thesis
      by (simp add: hi size_tb_well_formed [OF assms(1)] j_def)
  qed
  have one: "impl (append_buf b' [r] m) =
      (if time_ms r - time_ms (last (impl b)) > 0 \<and>
          (time_ms r - time_ms (last (impl b)) \<ge> m \<or> value_ne (val r) (val (last (impl b))))
       then impl b' @ [r] else impl b')" if "\<not> deleted r \<and> time_in_range r" for r m
  proof -
    from that have "dt64 (time_ms r) (time_ms (last (impl b))) = time_ms r - time_ms (last (impl b))"
      using lr by (simp add: dt64_in_range)
    with that ne show ?thesis
      by (simp add: append_buf_impl spec_accept_def Let_def la)
  qed
  have none: "append_tb b' src m = (Some 0, b', map mark_delete src)"
    if "\<forall>r\<in>set src. time_in_range r \<and> time_ms r \<le> time_ms (last (impl b))" for src m
    using ne lr that unfolding la [symmetric] by (rule append_tb_reject)
  show ?thesis
  proof (intro exI conjI impI allI)
    show "discard n 1 b = Some (min n (size_tb b), b')" by (rule d)
    show "history_size b' = 1" by (rule hs)
    show "history b' = [hd (impl b')]" by (rule hi)
    show "impl b' \<noteq> []" by (rule ne)
    show "last (impl b') = last (impl b)" by (rule la)
    show "time_ms (hd (impl b')) \<le> time_ms (last (impl b))" by (rule hl)
    show "impl b' = [last (impl b)]" if "size_tb b \<le> n"
      using all [OF that] by simp
    show "live b' = []" if "size_tb b \<le> n"
      using all [OF that] by simp
    show "history b' = [live b ! (min n (size_tb b) - 1)]" if "0 < min n (size_tb b)"
      using that by (rule sent)
    show "impl (append_buf b' [r] m) =
      (if time_ms r - time_ms (last (impl b)) > 0 \<and>
          (time_ms r - time_ms (last (impl b)) \<ge> m \<or> value_ne (val r) (val (last (impl b))))
       then impl b' @ [r] else impl b')" if "\<not> deleted r \<and> time_in_range r" for r m
      using that by (rule one)
    show "append_tb b' src m = (Some 0, b', map mark_delete src)"
      if "\<forall>r\<in>set src. time_in_range r \<and> time_ms r \<le> time_ms (last (impl b))" for src m
      using that by (rule none)
  qed
qed

text \<open>
  The second half of the unit test \<^verbatim>\<open>filter_by_time\<close>: after the first \<^verbatim>\<open>append\<close> and
  \<^verbatim>\<open>discard()\<close>, the reading at 3001 ms is the history, and a second \<^verbatim>\<open>append\<close> of the same
  readings, none of them deleted, appends nothing.
\<close>

theorem discard_keeps_baseline_witness:
  "well_formed (append_buf (TransferBuffer_new default_target_capacity) test_source 0) \<and>
   impl (append_buf (TransferBuffer_new default_target_capacity) test_source 0) \<noteq> [] \<and>
   increasing_times (impl (append_buf (TransferBuffer_new default_target_capacity) test_source 0)) \<and>
   list_all time_in_range
     (impl (append_buf (TransferBuffer_new default_target_capacity) test_source 0)) \<and>
   discard size_max 1 (append_buf (TransferBuffer_new default_target_capacity) test_source 0) =
     Some (4, \<lparr>impl = [new_reading 2.1 3001], impl_capacity = 4096, history_size = 1,
               target_capacity = 4096\<rparr>) \<and>
   history \<lparr>impl = [new_reading 2.1 3001], impl_capacity = 4096, history_size = 1,
            target_capacity = 4096\<rparr> = [new_reading 2.1 3001] \<and>
   live \<lparr>impl = [new_reading 2.1 3001], impl_capacity = 4096, history_size = 1,
         target_capacity = 4096\<rparr> = [] \<and>
   append_count \<lparr>impl = [new_reading 2.1 3001], impl_capacity = 4096, history_size = 1,
                 target_capacity = 4096\<rparr> test_source 0 = Some 0"
proof -
  define b where "b = append_buf (TransferBuffer_new default_target_capacity) test_source 0"
  define x where "x = \<lparr>impl = [new_reading 2.1 3001], impl_capacity = 4096, history_size = 1,
      target_capacity = 4096\<rparr>"
  have b: "b = \<lparr>impl = [new_reading 1 1000, new_reading 2 2000, new_reading 2.1 3000,
                       new_reading 2.1 3001],
               impl_capacity = 4096, history_size = 0, target_capacity = 4096\<rparr>"
    unfolding b_def by (rule append_test_source)
  have wf: "well_formed b" by (simp add: b well_formed_def)
  have ne: "impl b \<noteq> []" by (simp add: b)
  have inc: "increasing_times (impl b)"
    by (simp add: b increasing_times_def new_reading_def)
  have rng: "list_all time_in_range (impl b)"
    by (simp add: b time_in_range_def new_reading_def)
  have d: "discard size_max 1 b = Some (4, x)"
    unfolding discard_well_formed_eq [OF wf]
    by (simp add: b x_def discard_eval_defs)
  have la: "last (impl b) = new_reading 2.1 3001" by (simp add: b)
  have old: "\<forall>r\<in>set test_source. time_in_range r \<and> time_ms r \<le> time_ms (last (impl b))"
    by (simp add: la test_source_def new_reading_def time_in_range_def)
  from discard_keeps_baseline [OF wf ne inc rng, of size_max] d old
  have "append_tb x test_source 0 = (Some 0, x, map mark_delete test_source)"
    by auto
  then have "append_count x test_source 0 = Some 0"
    by (simp add: append_count_def)
  moreover have "history x = [new_reading 2.1 3001]" and "live x = []"
    by (simp_all add: x_def history_def live_def)
  ultimately show ?thesis
    using wf ne inc rng d unfolding b_def [symmetric] x_def by simp
qed

end
